theory Spec2Isabelle
  imports Complex_Main "HOL-Library.Multiset"
begin

section \<open>Python values and exceptions\<close>

text \<open>
  The sampler of \<^verbatim>\<open>stellargraph/data/unsupervised_sampler.py\<close> raises
  \<^verbatim>\<open>ValueError\<close> and \<^verbatim>\<open>TypeError\<close> itself; \<^verbatim>\<open>IndexError\<close> comes from indexing
  (\<^verbatim>\<open>walk[0]\<close>, \<^verbatim>\<open>positive_pairs[:, 0]\<close>, \<^verbatim>\<open>pairs[i]\<close>) and \<^verbatim>\<open>AttributeError\<close> from
  reading an attribute that was never set. Every exception carries its message.
\<close>

datatype error =
    ValueError string
  | TypeError string
  | IndexError string
  | AttributeError string

text \<open>
  The argument \<^verbatim>\<open>batch_size\<close> is an arbitrary Python object. The code looks at it with
  \<^verbatim>\<open>is None\<close> and \<^verbatim>\<open>type(batch_size) != int\<close> before it uses it as a number, so the
  model keeps the dynamic type: \<^verbatim>\<open>bool\<close> is a type of its own (\<^verbatim>\<open>type(True)\<close> is not
  \<^verbatim>\<open>int\<close>), and so are \<^verbatim>\<open>float\<close> and \<^verbatim>\<open>str\<close>.
\<close>

datatype pyval =
    PyNone
  | PyInt int
  | PyBool bool
  | PyFloat real
  | PyStr string

text \<open>\<^verbatim>\<open>type(self).__name__\<close> and the \<^verbatim>\<open>"({}) ...".format(...)\<close> of the messages.\<close>

definition type_name :: string where
  "type_name = ''UnsupervisedSampler''"

definition format_msg :: "string \<Rightarrow> string" where
  "format_msg msg = ''('' @ type_name @ '') '' @ msg"

section \<open>The graph and the random collaborators\<close>

text \<open>
  The graph is used through \<^verbatim>\<open>G.nodes()\<close>, the node enumeration, and
  \<^verbatim>\<open>G.node_degrees()\<close>, the degree lookup \<^verbatim>\<open>degrees[n]\<close> for the enumerated nodes.
\<close>

record 'n stellargraph =
  graph_nodes :: "'n list"
  node_degrees :: "'n \<Rightarrow> nat"

text \<open>
  A walker is an instance of \<^verbatim>\<open>UniformRandomWalk\<close> or of \<^verbatim>\<open>BiasedRandomWalk\<close>; its
  internal state (its graph and its own random stream) is the opaque \<open>'w\<close>.
\<close>

datatype 'w walker =
    UniformRandomWalk 'w
  | BiasedRandomWalk 'w

text \<open>
  NumPy arithmetic on \<^verbatim>\<open>float64\<close> arrays does not raise on a division by zero: the
  quotient is \<^verbatim>\<open>nan\<close> for \<^verbatim>\<open>0.0 / 0.0\<close> and an infinity otherwise. Finite values are
  idealised as real numbers (no rounding, no overflow).
\<close>

datatype npfloat =
    Finite real
  | PosInf
  | NegInf
  | NaN

definition true_divide :: "real \<Rightarrow> real \<Rightarrow> npfloat" where
  "true_divide x d =
     (if d \<noteq> 0 then Finite (x / d)
      else if x = 0 then NaN
      else if 0 < x then PosInf
      else NegInf)"

text \<open>
  The code this file does not define, as functions of explicit state:
  \<^item> \<open>new_uniform_walk\<close> is \<^verbatim>\<open>UniformRandomWalk(G, seed=seed)\<close> and \<open>random_state\<close> is the
    NumPy stream of \<^verbatim>\<open>random_state(seed)\<close>; both read the process-wide randomness \<open>'a\<close>
    (what an unseeded generator starts from);
  \<^item> \<open>uniform_run\<close> and \<open>biased_run\<close> are the two \<^verbatim>\<open>walker.run(...)\<close> calls; they may
    raise, and they advance the walker;
  \<^item> \<open>choice\<close> is \<^verbatim>\<open>np_random.choice(a, size=k, p=p)\<close>, which may raise, and
    \<open>permutation\<close> is \<^verbatim>\<open>np_random.permutation(n)\<close>; both advance the stream \<open>'r\<close>.
\<close>

record ('n, 'w, 'r, 'a) collaborators =
  new_uniform_walk :: "'n stellargraph \<Rightarrow> int option \<Rightarrow> 'a \<Rightarrow> 'w"
  random_state :: "int option \<Rightarrow> 'a \<Rightarrow> 'r"
  uniform_run :: "'w \<Rightarrow> 'n list \<Rightarrow> int \<Rightarrow> int \<Rightarrow> (error + 'n list list) \<times> 'w"
  biased_run ::
    "'w \<Rightarrow> 'n list \<Rightarrow> int \<Rightarrow> int \<Rightarrow> real \<Rightarrow> real \<Rightarrow> bool \<Rightarrow> (error + 'n list list) \<times> 'w"
  choice :: "'r \<Rightarrow> 'n list \<Rightarrow> nat \<Rightarrow> npfloat list \<Rightarrow> (error + 'n list) \<times> 'r"
  permutation :: "'r \<Rightarrow> nat \<Rightarrow> nat list \<times> 'r"

section \<open>The sampler object\<close>

text \<open>
  The attributes \<^verbatim>\<open>__init__\<close> sets. \<^verbatim>\<open>p\<close>, \<^verbatim>\<open>q\<close> and \<^verbatim>\<open>weighted\<close> exist only when the walker
  is a \<^verbatim>\<open>BiasedRandomWalk\<close>: \<open>bias\<close> is \<open>None\<close> otherwise.
\<close>

record ('n, 'w, 'r) sampler =
  graph :: "'n stellargraph"
  walker :: "'w walker"
  bias :: "(real \<times> real \<times> bool) option"
  nodes :: "'n list"
  length_w :: int
  number_of_walks :: int
  np_random :: 'r














section \<open>Validation of the batch size\<close>

definition msg_provided :: string where
  "msg_provided =
     format_msg ''The batch_size must be provided to generate samples for each batch in the epoch''"

definition msg_positive :: string where
  "msg_positive = format_msg ''The batch_size must be positive integer.''"

definition msg_even :: string where
  "msg_even =
     format_msg (''The batch_size must be an even integer since equal number of positive ''
       @ ''and negative samples are generated in each batch.'')"

text \<open>
  \<^verbatim>\<open>_check_parameter_values\<close>. The source returns nothing when no check fails and
  \<^verbatim>\<open>run\<close> goes on with \<^verbatim>\<open>batch_size\<close>, by then known to be an \<^verbatim>\<open>int\<close>: the model hands
  that integer back.
\<close>

definition check_parameter_values :: "pyval \<Rightarrow> error + int" where
  "check_parameter_values batch_size =
     (case batch_size of
        PyNone \<Rightarrow> Inl (ValueError msg_provided)
      | PyInt b \<Rightarrow>
          if b < 1 then Inl (ValueError msg_positive)
          else if b mod 2 \<noteq> 0 then Inl (ValueError msg_even)
          else Inr b
      | _ \<Rightarrow> Inl (TypeError msg_positive))"

section \<open>The sampling distribution\<close>

text \<open>
  \<^verbatim>\<open>np.array([degrees[n] ** 0.75 for n in all_nodes])\<close> and its quotient by
  \<^verbatim>\<open>np.sum(sampling_distribution)\<close>, element by element.
\<close>

definition sampling_distribution :: "'n stellargraph \<Rightarrow> real list" where
  "sampling_distribution g =
     map (\<lambda>n. real (node_degrees g n) powr 0.75) (graph_nodes g)"

definition sampling_distribution_norm :: "'n stellargraph \<Rightarrow> npfloat list" where
  "sampling_distribution_norm g =
     map (\<lambda>x. true_divide x (sum_list (sampling_distribution g))) (sampling_distribution g)"

section \<open>Walks to positive pairs\<close>

text \<open>A comprehension whose body may raise: the first exception ends it.\<close>

fun collect :: "('x \<Rightarrow> error + 'y) \<Rightarrow> 'x list \<Rightarrow> error + 'y list" where
  "collect f [] = Inr []"
| "collect f (x # xs) =
     (case f x of
        Inl e \<Rightarrow> Inl e
      | Inr y \<Rightarrow> (case collect f xs of Inl e \<Rightarrow> Inl e | Inr ys \<Rightarrow> Inr (y # ys)))"

text \<open>\<^verbatim>\<open>walk[0]\<close> raises on an empty walk.\<close>

definition first_item :: "'n list \<Rightarrow> error + 'n" where
  "first_item walk =
     (case walk of [] \<Rightarrow> Inl (IndexError ''list index out of range'') | x # _ \<Rightarrow> Inr x)"

definition targets :: "'n list list \<Rightarrow> error + 'n list" where
  "targets walks = collect first_item walks"

text \<open>
  \<^verbatim>\<open>[(target, c) for target, walk in zip(targets, walks) for c in walk[1:]]\<close>;
  \<^verbatim>\<open>walk[1:]\<close> is \<open>drop 1 walk\<close>.
\<close>

definition positive_pairs :: "'n list list \<Rightarrow> error + ('n \<times> 'n) list" where
  "positive_pairs walks =
     (case targets walks of
        Inl e \<Rightarrow> Inl e
      | Inr ts \<Rightarrow>
          Inr (concat (map (\<lambda>(target, walk). map (\<lambda>c. (target, c)) (drop 1 walk))
                          (zip ts walks))))"

section \<open>Negative pairs, labels and batches\<close>

text \<open>
  \<^verbatim>\<open>np.array\<close> of an empty list is one-dimensional, of shape \<^verbatim>\<open>(0,)\<close>, so
  \<^verbatim>\<open>positive_pairs[:, 0]\<close> raises there; of a non-empty list of pairs it has shape
  \<^verbatim>\<open>(k, 2)\<close> and the subscript is the column of targets.
\<close>

definition column0 :: "('n \<times> 'n) list \<Rightarrow> error + 'n list" where
  "column0 ps =
     (if ps = [] then Inl (IndexError ''too many indices for array'')
      else Inr (map fst ps))"

text \<open>\<^verbatim>\<open>np.column_stack\<close> of two one-dimensional arrays raises unless they are equally long.\<close>

definition column_stack :: "'n list \<Rightarrow> 'n list \<Rightarrow> error + ('n \<times> 'n) list" where
  "column_stack xs ys =
     (if length xs \<noteq> length ys
      then Inl (ValueError ''all the input array dimensions except for the concatenation axis must match exactly'')
      else Inr (zip xs ys))"

definition negative_pairs :: "('n \<times> 'n) list \<Rightarrow> 'n list \<Rightarrow> error + ('n \<times> 'n) list" where
  "negative_pairs pos negative_samples =
     (case column0 pos of
        Inl e \<Rightarrow> Inl e
      | Inr col \<Rightarrow> column_stack col negative_samples)"

text \<open>\<^verbatim>\<open>np.repeat(xs, k)\<close> repeats each element \<open>k\<close> times, in order.\<close>

definition np_repeat :: "'x list \<Rightarrow> nat \<Rightarrow> 'x list" where
  "np_repeat xs k = concat (map (replicate k) xs)"

text \<open>
  \<^verbatim>\<open>range(0, n, step)\<close> for a positive step, and the slices
  \<^verbatim>\<open>indices[i : i + batch_size]\<close>. \<^verbatim>\<open>run\<close> reaches them after the validation only, with
  \<^verbatim>\<open>batch_size\<close> at least 2.
\<close>

definition range_step :: "nat \<Rightarrow> nat \<Rightarrow> nat list" where
  "range_step n step = map (\<lambda>k. k * step) [0..<(n + step - 1) div step]"

definition batch_indices :: "nat list \<Rightarrow> nat \<Rightarrow> nat list list" where
  "batch_indices indices batch_size =
     map (\<lambda>i. take batch_size (drop i indices)) (range_step (length indices) batch_size)"

text \<open>Indexing an array with an array of indices raises on an index out of bounds.\<close>

definition index_array :: "'x list \<Rightarrow> nat list \<Rightarrow> error + 'x list" where
  "index_array xs idx =
     (if list_all (\<lambda>i. i < length xs) idx then Inr (map (\<lambda>i. xs ! i) idx)
      else Inl (IndexError ''index is out of bounds for axis 0''))"

type_synonym 'n batch = "('n \<times> 'n) list \<times> int list"

definition batch_of :: "('n \<times> 'n) list \<Rightarrow> int list \<Rightarrow> nat list \<Rightarrow> error + 'n batch" where
  "batch_of pairs labels i =
     (case index_array pairs i of
        Inl e \<Rightarrow> Inl e
      | Inr ps \<Rightarrow> (case index_array labels i of Inl e \<Rightarrow> Inl e | Inr ls \<Rightarrow> Inr (ps, ls)))"

section \<open>The batch-producing call\<close>

text \<open>The walker call of \<^verbatim>\<open>run\<close>: uniform, or biased with \<^verbatim>\<open>self.p\<close>, \<^verbatim>\<open>self.q\<close>, \<^verbatim>\<open>self.weighted\<close>.\<close>

definition run_walker ::
  "('n, 'w, 'r, 'a) collaborators \<Rightarrow> ('n, 'w, 'r) sampler \<Rightarrow> (error + 'n list list) \<times> 'w walker" where
  "run_walker ext s =
     (case walker s of
        UniformRandomWalk w \<Rightarrow>
          (case uniform_run ext w (nodes s) (length_w s) (number_of_walks s) of
             (res, w') \<Rightarrow> (res, UniformRandomWalk w'))
      | BiasedRandomWalk w \<Rightarrow>
          (case bias s of
             None \<Rightarrow>
               (Inl (AttributeError ''UnsupervisedSampler object has no attribute p''),
                BiasedRandomWalk w)
           | Some (p, q, weighted) \<Rightarrow>
               (case biased_run ext w (nodes s) (length_w s) (number_of_walks s) p q weighted of
                  (res, w') \<Rightarrow> (res, BiasedRandomWalk w'))))"

text \<open>
  \<^verbatim>\<open>UnsupervisedSampler.run\<close>. The result is what the call returns or raises, with the
  sampler as the call leaves it: an exception does not undo the draws made before it.
\<close>

definition run ::
  "('n, 'w, 'r, 'a) collaborators \<Rightarrow> ('n, 'w, 'r) sampler \<Rightarrow> pyval \<Rightarrow>
   (error + 'n batch list) \<times> ('n, 'w, 'r) sampler" where
  "run ext s batch_size =
     (case check_parameter_values batch_size of
        Inl e \<Rightarrow> (Inl e, s)
      | Inr b \<Rightarrow>
        let all_nodes = graph_nodes (graph s);
            dist = sampling_distribution_norm (graph s)
        in case run_walker ext s of (walks_res, wk) \<Rightarrow>
           let s1 = s\<lparr>walker := wk\<rparr>
           in case walks_res of
                Inl e \<Rightarrow> (Inl e, s1)
              | Inr walks \<Rightarrow>
                (case positive_pairs walks of
                   Inl e \<Rightarrow> (Inl e, s1)
                 | Inr pos \<Rightarrow>
                   (case choice ext (np_random s1) all_nodes (length pos) dist of
                      (samples_res, r1) \<Rightarrow>
                      let s2 = s1\<lparr>np_random := r1\<rparr>
                      in case samples_res of
                           Inl e \<Rightarrow> (Inl e, s2)
                         | Inr negative_samples \<Rightarrow>
                           (case negative_pairs pos negative_samples of
                              Inl e \<Rightarrow> (Inl e, s2)
                            | Inr neg \<Rightarrow>
                              let pairs = pos @ neg;
                                  labels = np_repeat [1, 0] (length pos)
                              in case permutation ext (np_random s2) (length pairs) of
                                   (indices, r2) \<Rightarrow>
                                   (collect (batch_of pairs labels)
                                      (batch_indices indices (nat b)),
                                    s2\<lparr>np_random := r2\<rparr>)))))"

section \<open>The stages of a call that returns\<close>

text \<open>
  The values a call of \<^verbatim>\<open>run\<close> goes through, in the order of the source: the validated
  batch size, the walks and the walker after them, the positive pairs, the negative
  samples and the stream after \<^verbatim>\<open>choice\<close>, the negative pairs, the permuted indices and
  the stream after \<^verbatim>\<open>permutation\<close>.
\<close>

definition stages ::
  "('n, 'w, 'r, 'a) collaborators \<Rightarrow> ('n, 'w, 'r) sampler \<Rightarrow> pyval \<Rightarrow> int \<Rightarrow> 'n list list \<Rightarrow>
   'w walker \<Rightarrow> ('n \<times> 'n) list \<Rightarrow> 'n list \<Rightarrow> 'r \<Rightarrow> ('n \<times> 'n) list \<Rightarrow> nat list \<Rightarrow> 'r \<Rightarrow> bool" where
  "stages ext s v b walks wk pos samples r1 neg indices r2 =
     (check_parameter_values v = Inr b
      \<and> run_walker ext s = (Inr walks, wk)
      \<and> positive_pairs walks = Inr pos
      \<and> choice ext (np_random s) (graph_nodes (graph s)) (length pos)
           (sampling_distribution_norm (graph s)) = (Inr samples, r1)
      \<and> negative_pairs pos samples = Inr neg
      \<and> permutation ext r1 (length (pos @ neg)) = (indices, r2))"

section \<open>Sequences of calls\<close>



section \<open>What the collaborators are taken to do, and the weight of the spec\<close>

text \<open>
  What the walkers are taken to do when there is no root node: they return no walk (and
  warn).
\<close>

definition no_roots_no_walks :: "('n, 'w, 'r, 'a) collaborators \<Rightarrow> bool" where
  "no_roots_no_walks ext =
     ((\<forall>w len n. fst (uniform_run ext w [] len n) = Inr [])
      \<and> (\<forall>w len n p q weighted. fst (biased_run ext w [] len n p q weighted) = Inr []))"


text \<open>
  The weight of the spec, \<open>weight(n) = degree(n)^0.75\<close>, to compare the computed
  distribution with.
\<close>

definition spec_weight :: "'n stellargraph \<Rightarrow> 'n \<Rightarrow> real" where
  "spec_weight g n = real (node_degrees g n) powr 0.75"

section \<open>A small deterministic instance\<close>

text \<open>
  A graph of four nodes with the edges 0--1 and 2--3, a walker that steps to the one
  neighbour and back, and a counter for each random stream. \<open>demo_choice\<close> validates
  the probabilities by comparisons alone, as \<^verbatim>\<open>p < 0\<close> and \<^verbatim>\<open>abs(sum(p) - 1.) > atol\<close>
  do, and every comparison with \<^verbatim>\<open>nan\<close> is false.
\<close>

definition demo_graph :: "nat stellargraph" where
  "demo_graph = \<lparr> graph_nodes = [0, 1, 2, 3], node_degrees = (\<lambda>n. if n < 4 then 1 else 0) \<rparr>"

definition demo_walk :: "nat \<Rightarrow> nat \<Rightarrow> nat list" where
  "demo_walk start len =
     map (\<lambda>k. if even k then start else if even start then start + 1 else start - 1) [0..<len]"

definition demo_walks :: "nat list \<Rightarrow> int \<Rightarrow> int \<Rightarrow> nat list list" where
  "demo_walks roots len n =
     concat (map (\<lambda>start. replicate (nat n) (demo_walk start (nat len))) roots)"

fun np_add :: "npfloat \<Rightarrow> npfloat \<Rightarrow> npfloat" where
  "np_add NaN _ = NaN"
| "np_add _ NaN = NaN"
| "np_add (Finite x) (Finite y) = Finite (x + y)"
| "np_add PosInf NegInf = NaN"
| "np_add NegInf PosInf = NaN"
| "np_add PosInf _ = PosInf"
| "np_add _ PosInf = PosInf"
| "np_add NegInf _ = NegInf"
| "np_add _ NegInf = NegInf"

definition np_sum :: "npfloat list \<Rightarrow> npfloat" where
  "np_sum xs = foldr np_add xs (Finite 0)"

fun is_negative :: "npfloat \<Rightarrow> bool" where
  "is_negative (Finite x) = (x < 0)"
| "is_negative NegInf = True"
| "is_negative _ = False"

fun off_one :: "npfloat \<Rightarrow> bool" where
  "off_one (Finite t) = (\<bar>t - 1\<bar> > 1 / 2 ^ 26)"
| "off_one NaN = False"
| "off_one _ = True"

definition demo_choice :: "nat \<Rightarrow> nat list \<Rightarrow> nat \<Rightarrow> npfloat list \<Rightarrow> (error + nat list) \<times> nat" where
  "demo_choice r a k p =
     (if a = []
        then (Inl (ValueError ''a must be non-empty''), r)
      else if length p \<noteq> length a
        then (Inl (ValueError ''a and p must have same size''), r)
      else if list_ex is_negative p
        then (Inl (ValueError ''probabilities are not non-negative''), r)
      else if off_one (np_sum p)
        then (Inl (ValueError ''probabilities do not sum to 1''), r)
      else (Inr (map (\<lambda>i. a ! ((r + i) mod length a)) [0..<k]), r + k))"

definition demo_seed :: "int option \<Rightarrow> nat \<Rightarrow> nat" where
  "demo_seed seed amb = (case seed of None \<Rightarrow> amb | Some v \<Rightarrow> nat \<bar>v\<bar>)"

definition demo_ext :: "(nat, nat, nat, nat) collaborators" where
  "demo_ext =
     \<lparr> new_uniform_walk = (\<lambda>g. demo_seed),
       random_state = demo_seed,
       uniform_run = (\<lambda>w roots len n. (Inr (demo_walks roots len n), Suc w)),
       biased_run = (\<lambda>w roots len n p q weighted. (Inr (demo_walks roots len n), Suc w)),
       choice = demo_choice,
       permutation = (\<lambda>r n. (rev [0..<n], Suc r)) \<rparr>"

definition demo_sampler :: "(nat, nat, nat) sampler" where
  "demo_sampler =
     \<lparr> graph = demo_graph, walker = UniformRandomWalk 0, bias = None, nodes = [0, 1, 2, 3],
       length_w = 2, number_of_walks = 1, np_random = 5 \<rparr>"


text \<open>What the instance returns for \<^verbatim>\<open>run(6)\<close>, and the sampler after the call.\<close>

definition demo_batches :: "nat batch list" where
  "demo_batches =
     [([(3, 0), (2, 3), (1, 2), (0, 1), (3, 2), (2, 3)], [0, 0, 0, 0, 1, 1]),
      ([(1, 0), (0, 1)], [1, 1])]"

definition demo_after :: "(nat, nat, nat) sampler" where
  "demo_after = demo_sampler\<lparr>walker := UniformRandomWalk 1, np_random := 10\<rparr>"

text \<open>The instance without root nodes.\<close>

definition empty_roots_sampler :: "(nat, nat, nat) sampler" where
  "empty_roots_sampler = demo_sampler\<lparr>nodes := []\<rparr>"



section \<open>Rejected batch sizes\<close>

lemma format_msg_inject: "format_msg a = format_msg b \<longleftrightarrow> a = b"
  by (simp add: format_msg_def)

lemma batch_size_messages_differ:
  "msg_provided \<noteq> msg_positive" "msg_provided \<noteq> msg_even" "msg_positive \<noteq> msg_even"
  by (simp_all add: msg_provided_def msg_positive_def msg_even_def format_msg_inject)

text \<open>
  C7. \<^verbatim>\<open>run\<close> raises, whatever the graph, the walker and the random stream are and
  leaving the sampler as it was, when \<^verbatim>\<open>batch_size\<close> is \<^verbatim>\<open>None\<close> (a \<^verbatim>\<open>ValueError\<close>),
  not of type \<^verbatim>\<open>int\<close> (a \<^verbatim>\<open>TypeError\<close>), an integer below 1 (a \<^verbatim>\<open>ValueError\<close>) or an odd
  integer (a \<^verbatim>\<open>ValueError\<close>); the four exceptions differ pairwise in class or message;
  a positive even integer passes the validation.
\<close>

theorem run_rejects_invalid_batch_size:
  "run ext s PyNone = (Inl (ValueError msg_provided), s)
   \<and> (\<forall>v. v \<noteq> PyNone \<and> (\<forall>b. v \<noteq> PyInt b) \<longrightarrow> run ext s v = (Inl (TypeError msg_positive), s))
   \<and> (\<forall>b. b < 1 \<longrightarrow> run ext s (PyInt b) = (Inl (ValueError msg_positive), s))
   \<and> (\<forall>b. 1 \<le> b \<and> odd b \<longrightarrow> run ext s (PyInt b) = (Inl (ValueError msg_even), s))
   \<and> (\<forall>b. 1 \<le> b \<and> even b \<longrightarrow> check_parameter_values (PyInt b) = Inr b)
   \<and> distinct [ValueError msg_provided, TypeError msg_positive,
                ValueError msg_positive, ValueError msg_even]"
proof -
  have other: "run ext s v = (Inl (TypeError msg_positive), s)"
    if "v \<noteq> PyNone" and "\<forall>b. v \<noteq> PyInt b" for v
    using that by (cases v) (simp_all add: run_def check_parameter_values_def)
  have ints: "run ext s (PyInt b) = (Inl (ValueError msg_positive), s)" if "b < 1" for b
    using that by (simp add: run_def check_parameter_values_def)
  have odds: "run ext s (PyInt b) = (Inl (ValueError msg_even), s)" if "1 \<le> b" "odd b" for b
    using that by (simp add: run_def check_parameter_values_def odd_iff_mod_2_eq_one)
  have evens: "check_parameter_values (PyInt b) = Inr b" if "1 \<le> b" "even b" for b
    using that by (simp add: check_parameter_values_def)
  have none: "run ext s PyNone = (Inl (ValueError msg_provided), s)"
    by (simp add: run_def check_parameter_values_def)
  have "distinct [ValueError msg_provided, TypeError msg_positive,
                  ValueError msg_positive, ValueError msg_even]"
    by (simp add: batch_size_messages_differ)
  with none other ints odds evens show ?thesis by blast
qed

theorem run_rejects_invalid_batch_size_witness:
  "run demo_ext demo_sampler PyNone = (Inl (ValueError msg_provided), demo_sampler)
   \<and> run demo_ext demo_sampler (PyFloat 2.5) = (Inl (TypeError msg_positive), demo_sampler)
   \<and> run demo_ext demo_sampler (PyBool True) = (Inl (TypeError msg_positive), demo_sampler)
   \<and> run demo_ext demo_sampler (PyInt 0) = (Inl (ValueError msg_positive), demo_sampler)
   \<and> run demo_ext demo_sampler (PyInt (- 4)) = (Inl (ValueError msg_positive), demo_sampler)
   \<and> run demo_ext demo_sampler (PyInt 3) = (Inl (ValueError msg_even), demo_sampler)
   \<and> check_parameter_values (PyInt 4) = Inr 4"
  using run_rejects_invalid_batch_size [of demo_ext demo_sampler] by simp

section \<open>Positive pairs\<close>

lemma collect_first_item:
  "\<forall>w\<in>set walks. w \<noteq> [] \<Longrightarrow> collect first_item walks = Inr (map hd walks)"
  by (induction walks) (auto simp: first_item_def split: list.splits)

lemma drop1_nth: "drop 1 w = map (\<lambda>i. w ! i) [1..<length w]"
  by (metis One_nat_def drop_map map_nth drop_upt plus_1_eq_Suc add.commute)

lemma pairs_of_zip_hd:
  "concat (map (\<lambda>(target, walk). map (\<lambda>c. (target, c)) (drop 1 walk)) (zip (map hd walks) walks))
   = concat (map (\<lambda>w. map (\<lambda>c. (hd w, c)) (drop 1 w)) walks)"
  by (induction walks) auto

text \<open>
  C1. For walks that all have the length \<open>L \<ge> 2\<close>, the extraction returns, walk after
  walk, the pairs \<open>(walk[0], walk[i])\<close> for \<open>i = 1, ..., L - 1\<close> in this order: \<open>L - 1\<close>
  pairs for each walk, all with the target \<open>walk[0]\<close>.
\<close>

theorem positive_pairs_of_walks:
  assumes "2 \<le> L" and "\<forall>w\<in>set walks. length w = L"
  shows "positive_pairs walks =
           Inr (concat (map (\<lambda>w. map (\<lambda>i. (w ! 0, w ! i)) [1..<L]) walks))
         \<and> (\<forall>ps. positive_pairs walks = Inr ps \<longrightarrow> length ps = length walks * (L - 1))"
proof -
  have ne: "\<forall>w\<in>set walks. w \<noteq> []" using assms by auto
  have each: "\<And>w. w \<in> set walks \<Longrightarrow>
      map (\<lambda>c. (hd w, c)) (drop 1 w) = map (\<lambda>i. (w ! 0, w ! i)) [1..<L]"
  proof -
    fix w assume w: "w \<in> set walks"
    then have "length w = L" "w \<noteq> []" using assms ne by auto
    then show "map (\<lambda>c. (hd w, c)) (drop 1 w) = map (\<lambda>i. (w ! 0, w ! i)) [1..<L]"
      by (simp add: drop1_nth hd_conv_nth del: drop_Suc_Cons One_nat_def)
  qed
  have m: "map (\<lambda>w. map (\<lambda>c. (hd w, c)) (drop 1 w)) walks =
           map (\<lambda>w. map (\<lambda>i. (w ! 0, w ! i)) [1..<L]) walks"
    by (rule map_cong [OF refl]) (rule each)
  have "targets walks = Inr (map hd walks)"
    by (simp add: targets_def collect_first_item [OF ne])
  then have eq: "positive_pairs walks =
           Inr (concat (map (\<lambda>w. map (\<lambda>i. (w ! 0, w ! i)) [1..<L]) walks))"
    unfolding positive_pairs_def by (simp only: sum.case pairs_of_zip_hd m)
  have "length (concat (map (\<lambda>w. map (\<lambda>i. (w ! 0, w ! i)) [1..<L]) walks)) = length walks * (L - 1)"
    by (induction walks) auto
  with eq show ?thesis by simp
qed

theorem positive_pairs_of_walks_witness:
  "list_all (\<lambda>w. length w = 3) [[1, 2, 3], [4, 5, 6 :: nat]]
   \<and> positive_pairs [[1, 2, 3], [4, 5, 6 :: nat]] = Inr [(1, 2), (1, 3), (4, 5), (4, 6)]"
  using positive_pairs_of_walks [of 3 "[[1, 2, 3], [4, 5, 6 :: nat]]"]
  by (simp add: upt_rec)

section \<open>Construction\<close>



section \<open>The distribution is the normalised weight\<close>

lemma sampling_distribution_weight:
  "sampling_distribution g = map (spec_weight g) (graph_nodes g)"
  by (simp add: sampling_distribution_def spec_weight_def)

lemma weight_nonneg: "0 \<le> spec_weight g n"
  by (simp add: spec_weight_def)

lemma weight_zero_iff: "spec_weight g n = 0 \<longleftrightarrow> node_degrees g n = 0"
  by (simp add: spec_weight_def)

lemma total_weight_zero_iff:
  "sum_list (map (spec_weight g) xs) = 0 \<longleftrightarrow> (\<forall>n\<in>set xs. node_degrees g n = 0)"
proof -
  have "sum_list (map (spec_weight g) xs) = 0 \<longleftrightarrow> (\<forall>x\<in>set (map (spec_weight g) xs). x = 0)"
    by (rule sum_list_nonneg_eq_0_iff) (auto simp: weight_nonneg)
  then show ?thesis by (simp add: weight_zero_iff)
qed

lemma sum_list_divide: "(\<Sum>x\<leftarrow>xs. f x / (c::real)) = (\<Sum>x\<leftarrow>xs. f x) / c"
  by (induction xs) (simp_all add: add_divide_distrib)

lemma run_walker_choice: "run_walker (ext\<lparr>choice := c\<rparr>) s = run_walker ext s"
  by (cases "walker s"; cases "bias s") (simp_all add: run_walker_def)

lemma run_choice_argument:
  "run (ext\<lparr>choice := (\<lambda>r a k p.
          if a = graph_nodes (graph s) \<and> p = sampling_distribution_norm (graph s)
          then choice ext r a k p else other r a k p)\<rparr>) s v = run ext s v"
  by (simp add: run_def run_walker_choice Let_def cong: sum.case_cong prod.case_cong)

text \<open>
  C5. The distribution has one entry for each node, in the order of the enumeration: the
  quotient of \<open>degree(n)^0.75\<close> by the sum of these weights over the enumeration. When
  some enumerated node has a degree other than zero, every entry is a finite number, at
  least 0, and the entries add up to 1 (in exact arithmetic). \<^verbatim>\<open>run\<close> computes it from
  the graph at the call: changing what \<^verbatim>\<open>choice\<close> does on any other node list or
  distribution leaves the call as it is.
\<close>

theorem sampling_distribution_normalised:
  "length (sampling_distribution_norm g) = length (graph_nodes g)
   \<and> (\<forall>i. i < length (graph_nodes g) \<longrightarrow>
         sampling_distribution_norm g ! i =
           true_divide (spec_weight g (graph_nodes g ! i)) (\<Sum>n\<leftarrow>graph_nodes g. spec_weight g n))
   \<and> ((\<exists>n\<in>set (graph_nodes g). node_degrees g n \<noteq> 0) \<longrightarrow>
         sampling_distribution_norm g =
           map (\<lambda>n. Finite (spec_weight g n / (\<Sum>m\<leftarrow>graph_nodes g. spec_weight g m)))
             (graph_nodes g)
         \<and> (\<forall>n\<in>set (graph_nodes g). 0 \<le> spec_weight g n / (\<Sum>m\<leftarrow>graph_nodes g. spec_weight g m))
         \<and> (\<Sum>n\<leftarrow>graph_nodes g. spec_weight g n / (\<Sum>m\<leftarrow>graph_nodes g. spec_weight g m)) = 1)
   \<and> (graph s = g \<longrightarrow>
         run (ext\<lparr>choice := (\<lambda>r a k p.
                if a = graph_nodes g \<and> p = sampling_distribution_norm g
                then choice ext r a k p else other r a k p)\<rparr>) s v
         = run ext s v)"
proof -
  let ?T = "\<Sum>n\<leftarrow>graph_nodes g. spec_weight g n"
  have len: "length (sampling_distribution_norm g) = length (graph_nodes g)"
    by (simp add: sampling_distribution_norm_def sampling_distribution_weight)
  have entry: "sampling_distribution_norm g ! i = true_divide (spec_weight g (graph_nodes g ! i)) ?T"
    if "i < length (graph_nodes g)" for i
    using that by (simp add: sampling_distribution_norm_def sampling_distribution_weight)
  have pos: "sampling_distribution_norm g = map (\<lambda>n. Finite (spec_weight g n / ?T)) (graph_nodes g)
         \<and> (\<forall>n\<in>set (graph_nodes g). 0 \<le> spec_weight g n / ?T)
         \<and> (\<Sum>n\<leftarrow>graph_nodes g. spec_weight g n / ?T) = 1"
    if "\<exists>n\<in>set (graph_nodes g). node_degrees g n \<noteq> 0"
  proof -
    have nz: "?T \<noteq> 0" using that by (simp add: total_weight_zero_iff)
    have "0 \<le> ?T" by (rule sum_list_nonneg) (auto simp: weight_nonneg)
    then have ge: "\<forall>n\<in>set (graph_nodes g). 0 \<le> spec_weight g n / ?T"
      by (simp add: weight_nonneg)
    have "sampling_distribution_norm g = map (\<lambda>n. Finite (spec_weight g n / ?T)) (graph_nodes g)"
      using nz
      by (simp add: sampling_distribution_norm_def sampling_distribution_weight true_divide_def)
    moreover have "(\<Sum>n\<leftarrow>graph_nodes g. spec_weight g n / ?T) = 1"
      using nz by (simp add: sum_list_divide)
    ultimately show ?thesis using ge by simp
  qed
  have call: "run (ext\<lparr>choice := (\<lambda>r a k p.
                if a = graph_nodes g \<and> p = sampling_distribution_norm g
                then choice ext r a k p else other r a k p)\<rparr>) s v = run ext s v"
    if "graph s = g"
    using run_choice_argument [where ext = ext and s = s and other = other and v = v] that by simp
  from len entry pos call show ?thesis by blast
qed

theorem sampling_distribution_normalised_witness:
  "sampling_distribution_norm demo_graph
     = [Finite (1 / 4), Finite (1 / 4), Finite (1 / 4), Finite (1 / 4)]
   \<and> (1 / 4 + 1 / 4 + 1 / 4 + 1 / 4 :: real) = 1
   \<and> graph demo_sampler = demo_graph"
  using sampling_distribution_normalised [where g = demo_graph and s = demo_sampler
    and ext = demo_ext and v = "PyInt 2" and other = "\<lambda>r a k p. (Inr [], r)"]
  by (simp add: demo_graph_def demo_sampler_def spec_weight_def)

section \<open>Calls that return\<close>

lemma run_stages:
  assumes "stages ext s v b walks wk pos samples r1 neg indices r2"
  shows "run ext s v =
           (collect (batch_of (pos @ neg) (np_repeat [1, 0] (length pos)))
              (batch_indices indices (nat b)),
            s\<lparr>walker := wk, np_random := r2\<rparr>)"
  using assms by (simp add: run_def stages_def)

lemma run_returns:
  assumes "run ext s v = (Inr batches, s')"
  shows "\<exists>b walks wk pos samples r1 neg indices r2.
           stages ext s v b walks wk pos samples r1 neg indices r2
         \<and> collect (batch_of (pos @ neg) (np_repeat [1, 0] (length pos)))
              (batch_indices indices (nat b)) = Inr batches
         \<and> s' = s\<lparr>walker := wk, np_random := r2\<rparr>"
  using assms unfolding stages_def by (auto simp: run_def Let_def split: sum.splits prod.splits)

lemma check_parameter_values_Inr: "check_parameter_values v = Inr b \<Longrightarrow> v = PyInt b \<and> 2 \<le> b \<and> even b"
  by (cases v) (auto simp: check_parameter_values_def split: if_splits)

section \<open>Comprehensions, index arrays and chunks\<close>

lemma collect_InrD: "collect f xs = Inr ys \<Longrightarrow> list_all2 (\<lambda>x y. f x = Inr y) xs ys"
  by (induction xs arbitrary: ys) (auto split: sum.splits)

lemma collect_Inr_map: "\<forall>x\<in>set xs. f x = Inr (g x) \<Longrightarrow> collect f xs = Inr (map g xs)"
  by (induction xs) auto

lemma index_array_Inr:
  "index_array xs idx = Inr ys \<longleftrightarrow> (\<forall>i\<in>set idx. i < length xs) \<and> ys = map (\<lambda>i. xs ! i) idx"
  by (auto simp: index_array_def list_all_iff)

lemma batch_of_Inr:
  "batch_of pairs labels c = Inr bt \<longleftrightarrow>
     (\<forall>i\<in>set c. i < length pairs \<and> i < length labels)
     \<and> bt = (map (\<lambda>i. pairs ! i) c, map (\<lambda>i. labels ! i) c)"
  by (auto simp: batch_of_def index_array_Inr split: sum.splits) (auto simp: index_array_def list_all_iff)

lemma batches_of_chunks:
  assumes "collect (batch_of pairs labels) chunks = Inr batches"
  shows "batches = map (\<lambda>c. (map (\<lambda>i. pairs ! i) c, map (\<lambda>i. labels ! i) c)) chunks"
    and "\<forall>i\<in>set (concat chunks). i < length pairs \<and> i < length labels"
proof -
  have l: "list_all2 (\<lambda>c bt. batch_of pairs labels c = Inr bt) chunks batches"
    using assms by (rule collect_InrD)
  then have len: "length chunks = length batches" by (rule list_all2_lengthD)
  have nth: "batch_of pairs labels (chunks ! k) = Inr (batches ! k)" if "k < length chunks" for k
    using l that by (simp add: list_all2_conv_all_nth)
  show "batches = map (\<lambda>c. (map (\<lambda>i. pairs ! i) c, map (\<lambda>i. labels ! i) c)) chunks"
    using len nth by (auto simp: list_eq_iff_nth_eq batch_of_Inr)
  show "\<forall>i\<in>set (concat chunks). i < length pairs \<and> i < length labels"
  proof
    fix i assume "i \<in> set (concat chunks)"
    then obtain c where c: "c \<in> set chunks" "i \<in> set c" by auto
    then obtain k where k: "k < length chunks" "chunks ! k = c" by (auto simp: in_set_conv_nth)
    from nth [OF k(1)] k(2) c(2) show "i < length pairs \<and> i < length labels"
      by (simp add: batch_of_Inr)
  qed
qed

lemma concat_map_fst_batches:
  "concat (map fst (map (\<lambda>c. (map f c, map g c)) chunks)) = map f (concat chunks)"
  "concat (map snd (map (\<lambda>c. (map f c, map g c)) chunks)) = map g (concat chunks)"
  by (induction chunks) auto

lemma concat_chunks:
  "concat (map (\<lambda>k. take b (drop (k * b) xs)) [0..<m]) = take (m * b) xs"
proof (induction m)
  case 0
  then show ?case by simp
next
  case (Suc m)
  have "take (Suc m * b) xs = take (m * b) xs @ take b (drop (m * b) xs)"
    by (metis take_add mult_Suc add.commute)
  with Suc show ?case by simp
qed

lemma batch_indices_nth:
  "batch_indices idx b = map (\<lambda>k. take b (drop (k * b) idx)) [0..<(length idx + b - 1) div b]"
  by (simp add: batch_indices_def range_step_def comp_def)

lemma ceil_div_covers:
  assumes "0 < b"
  shows "(n::nat) \<le> ((n + b - 1) div b) * b"
proof -
  have "(n + b - 1) mod b < b" using assms by simp
  moreover have "(n + b - 1) div b * b + (n + b - 1) mod b = n + b - 1"
    by (rule div_mult_mod_eq)
  ultimately show ?thesis using assms by linarith
qed

lemma ceil_div_tight:
  assumes "0 < b" and "Suc k < (n + b - 1) div b"
  shows "Suc k * b \<le> (n::nat)"
proof -
  have "Suc (Suc k) * b \<le> (n + b - 1) div b * b"
    using assms(2) by (simp only: Suc_le_eq [symmetric] mult_le_mono1)
  also have "\<dots> \<le> n + b - 1" by (rule div_times_less_eq_dividend)
  finally have "Suc k * b + b \<le> n + b - 1" by (simp add: add.commute)
  then show ?thesis using assms(1) by linarith
qed

lemma ceil_div_last:
  assumes "0 < b" and "k < (n + b - 1) div b"
  shows "k * b < (n::nat)"
proof -
  have "Suc k * b \<le> (n + b - 1) div b * b"
    using assms(2) by (simp only: Suc_le_eq [symmetric] mult_le_mono1)
  also have "\<dots> \<le> n + b - 1" by (rule div_times_less_eq_dividend)
  finally have "k * b + b \<le> n + b - 1" by (simp add: add.commute)
  then show ?thesis using assms(1) by linarith
qed

lemma concat_batch_indices: "0 < b \<Longrightarrow> concat (batch_indices idx b) = idx"
  using ceil_div_covers [of b "length idx"] by (simp add: batch_indices_nth concat_chunks)

lemma length_batch_indices: "length (batch_indices idx b) = (length idx + b - 1) div b"
  by (simp add: batch_indices_nth)

lemma batch_indices_chunk:
  "k < (length idx + b - 1) div b \<Longrightarrow> batch_indices idx b ! k = take b (drop (k * b) idx)"
  by (simp add: batch_indices_nth)

lemma chunk_sizes:
  assumes "0 < b" and "k < (length idx + b - 1) div b"
  shows "1 \<le> length (batch_indices idx b ! k)"
    and "length (batch_indices idx b ! k) \<le> b"
    and "Suc k < (length idx + b - 1) div b \<Longrightarrow> length (batch_indices idx b ! k) = b"
proof -
  have c: "batch_indices idx b ! k = take b (drop (k * b) idx)"
    using assms(2) by (rule batch_indices_chunk)
  have "k * b < length idx" using assms by (rule ceil_div_last)
  then show "1 \<le> length (batch_indices idx b ! k)" using assms(1) by (simp add: c)
  show "length (batch_indices idx b ! k) \<le> b" by (simp add: c)
  assume "Suc k < (length idx + b - 1) div b"
  with assms(1) have "Suc k * b \<le> length idx" by (rule ceil_div_tight)
  then show "length (batch_indices idx b ! k) = b" by (simp add: c)
qed

lemma mset_map_nth_permutation:
  assumes "mset idx = mset [0..<length xs]"
  shows "mset (map (\<lambda>i. xs ! i) idx) = mset xs"
proof -
  have "mset (map (\<lambda>i. xs ! i) idx) = image_mset (\<lambda>i. xs ! i) (mset idx)" by simp
  also have "\<dots> = image_mset (\<lambda>i. xs ! i) (mset [0..<length xs])" using assms by simp
  also have "\<dots> = mset (map (\<lambda>i. xs ! i) [0..<length xs])" by simp
  also have "\<dots> = mset xs" by (simp only: map_nth)
  finally show ?thesis .
qed

lemma sum_list_map_nth_permutation:
  assumes "mset idx = mset [0..<length (xs :: int list)]"
  shows "sum_list (map (\<lambda>i. xs ! i) idx) = sum_list xs"
proof -
  have "mset (map (\<lambda>i. xs ! i) idx) = mset xs" using assms by (rule mset_map_nth_permutation)
  then show ?thesis by (metis sum_mset_sum_list)
qed

section \<open>The instance, evaluated\<close>

lemma demo_distribution:
  "sampling_distribution_norm demo_graph = [Finite (1 / 4), Finite (1 / 4), Finite (1 / 4), Finite (1 / 4)]"
  by (simp add: sampling_distribution_norm_def sampling_distribution_def demo_graph_def true_divide_def)

lemma demo_stages:
  "stages demo_ext demo_sampler (PyInt 6) 6
     [[0, 1], [1, 0], [2, 3], [3, 2]] (UniformRandomWalk 1)
     [(0, 1), (1, 0), (2, 3), (3, 2)] [1, 2, 3, 0] 9
     [(0, 1), (1, 2), (2, 3), (3, 0)] [7, 6, 5, 4, 3, 2, 1, 0] 10"
proof -
  have w: "run_walker demo_ext demo_sampler = (Inr [[0, 1], [1, 0], [2, 3], [3, 2]], UniformRandomWalk 1)"
    by (simp add: run_walker_def demo_ext_def demo_sampler_def demo_walks_def demo_walk_def upt_rec)
  have p: "positive_pairs [[0, 1], [1, 0], [2, 3], [3, 2::nat]] = Inr [(0, 1), (1, 0), (2, 3), (3, 2)]"
    by (simp add: positive_pairs_def targets_def first_item_def)
  have c: "choice demo_ext (np_random demo_sampler) (graph_nodes (graph demo_sampler))
             (length [(0, 1), (1, 0), (2, 3), (3 :: nat, 2 :: nat)])
             (sampling_distribution_norm (graph demo_sampler)) = (Inr [1, 2, 3, 0], 9)"
    by (simp add: demo_ext_def demo_sampler_def demo_distribution demo_choice_def np_sum_def)
       (simp add: demo_graph_def)
  have n: "negative_pairs [(0, 1), (1, 0), (2, 3), (3, 2::nat)] [1, 2, 3, 0] = Inr [(0, 1), (1, 2), (2, 3), (3, 0)]"
    by (simp add: negative_pairs_def column0_def column_stack_def)
  have q: "permutation demo_ext 9
             (length ([(0, 1), (1, 0), (2, 3), (3 :: nat, 2 :: nat)] @ [(0, 1), (1, 2), (2, 3), (3, 0)]))
           = ([7, 6, 5, 4, 3, 2, 1, 0], 10)"
    by (simp add: demo_ext_def)
  have k: "check_parameter_values (PyInt 6) = Inr 6"
    by (simp add: check_parameter_values_def)
  show ?thesis
    unfolding stages_def by (intro conjI) (rule k w p c n q)+
qed

lemma demo_run:
  "run demo_ext demo_sampler (PyInt 6) =
     (Inr [([(3, 0), (2, 3), (1, 2), (0, 1), (3, 2), (2, 3)], [0, 0, 0, 0, 1, 1]),
           ([(1, 0), (0, 1)], [1, 1])],
      demo_sampler\<lparr>walker := UniformRandomWalk 1, np_random := 10\<rparr>)"
  by (simp add: run_stages [OF demo_stages] batch_indices_def range_step_def batch_of_def
      index_array_def np_repeat_def upt_rec)

lemma demo_run_result: "run demo_ext demo_sampler (PyInt 6) = (Inr demo_batches, demo_after)"
  by (simp add: demo_run demo_batches_def demo_after_def)

section \<open>Negative pairs\<close>

lemma negative_pairs_Inr:
  "negative_pairs pos samples = Inr neg \<longleftrightarrow>
     pos \<noteq> [] \<and> length samples = length pos \<and> neg = zip (map fst pos) samples"
  by (auto simp: negative_pairs_def column0_def column_stack_def)

lemma negative_pairs_facts:
  assumes "negative_pairs pos samples = Inr neg"
  shows "length samples = length pos \<and> length neg = length pos
         \<and> (\<forall>i<length pos. neg ! i = (fst (pos ! i), samples ! i))"
  using assms by (simp add: negative_pairs_Inr)

text \<open>
  C2. Negative pairs exist only when as many samples came back as there are positive
  pairs, and then the \<open>i\<close>-th negative pair is the target of the \<open>i\<close>-th positive pair
  with the \<open>i\<close>-th sample. In a call of \<^verbatim>\<open>run\<close> that returns, \<^verbatim>\<open>choice\<close> was asked for
  \<open>length pos\<close> samples from all nodes of the graph under the sampling distribution
  (the fourth line of \<open>stages\<close>), and positive and negative pairs are equally many.
\<close>

theorem negative_pairs_reuse_targets:
  "(negative_pairs pos samples = Inr neg \<longrightarrow>
      length samples = length pos \<and> length neg = length pos
      \<and> (\<forall>i<length pos. neg ! i = (fst (pos ! i), samples ! i)))
   \<and> (run ext s v = (Inr batches, s') \<longrightarrow>
      (\<exists>b walks wk ps smp r1 ng indices r2.
          stages ext s v b walks wk ps smp r1 ng indices r2
          \<and> length smp = length ps \<and> length ng = length ps
          \<and> (\<forall>i<length ps. ng ! i = (fst (ps ! i), smp ! i))))"
proof -
  have "\<exists>b walks wk ps smp r1 ng indices r2.
          stages ext s v b walks wk ps smp r1 ng indices r2
          \<and> length smp = length ps \<and> length ng = length ps
          \<and> (\<forall>i<length ps. ng ! i = (fst (ps ! i), smp ! i))"
    if "run ext s v = (Inr batches, s')"
  proof -
    from run_returns [OF that] obtain b walks wk ps smp r1 ng indices r2
      where st: "stages ext s v b walks wk ps smp r1 ng indices r2" by blast
    then have "negative_pairs ps smp = Inr ng" by (simp add: stages_def)
    from negative_pairs_facts [OF this] st show ?thesis by blast
  qed
  then show ?thesis using negative_pairs_facts [of pos samples neg] by blast
qed

theorem negative_pairs_reuse_targets_witness:
  "negative_pairs [(0, 1), (1, 0), (2, 3), (3, 2 :: nat)] [1, 2, 3, 0]
     = Inr [(0, 1), (1, 2), (2, 3), (3, 0)]
   \<and> run demo_ext demo_sampler (PyInt 6) = (Inr demo_batches, demo_after)
   \<and> (\<exists>b walks wk ps smp r1 ng indices r2.
          stages demo_ext demo_sampler (PyInt 6) b walks wk ps smp r1 ng indices r2
          \<and> length smp = length ps \<and> length ng = length ps
          \<and> (\<forall>i<length ps. ng ! i = (fst (ps ! i), smp ! i)))"
proof -
  note t = negative_pairs_reuse_targets [where ext = demo_ext and s = demo_sampler
      and v = "PyInt 6" and batches = demo_batches and s' = demo_after
      and pos = "[(0, 1), (1, 0), (2, 3), (3, 2)]" and samples = "[1, 2, 3, 0]"
      and neg = "[(0, 1), (1, 2), (2, 3), (3, 0)]"]
  from t demo_run_result have "\<exists>b walks wk ps smp r1 ng indices r2.
          stages demo_ext demo_sampler (PyInt 6) b walks wk ps smp r1 ng indices r2
          \<and> length smp = length ps \<and> length ng = length ps
          \<and> (\<forall>i<length ps. ng ! i = (fst (ps ! i), smp ! i))"
    by (elim conjE) (erule mp)
  moreover have "negative_pairs [(0, 1), (1, 0), (2, 3), (3, 2 :: nat)] [1, 2, 3, 0]
     = Inr [(0, 1), (1, 2), (2, 3), (3, 0)]"
    by (simp add: negative_pairs_def column0_def column_stack_def)
  ultimately show ?thesis using demo_run_result by (intro conjI)
qed

section \<open>Pairs and labels\<close>

lemma np_repeat_labels: "np_repeat [1, 0 :: int] k = replicate k 1 @ replicate k 0"
  by (simp add: np_repeat_def)

lemma labels_facts:
  "np_repeat [1, 0 :: int] k = replicate k 1 @ replicate k 0"
  "length (np_repeat [1, 0 :: int] k) = 2 * k"
  "i < 2 * k \<Longrightarrow> (np_repeat [1, 0 :: int] k ! i = 1) = (i < k)"
  "i < 2 * k \<Longrightarrow> \<not> i < k \<Longrightarrow> np_repeat [1, 0 :: int] k ! i = 0"
  "2 * sum_list (np_repeat [1, 0 :: int] k) = int (length (np_repeat [1, 0 :: int] k))"
  by (simp_all add: np_repeat_labels nth_append sum_list_replicate)

text \<open>
  C3. The labels are \<open>k\<close> ones followed by \<open>k\<close> zeros for \<open>k\<close> positive pairs: the label
  at \<open>i\<close> is 1 exactly when \<open>i < k\<close>, and twice their sum is their number. In a call of
  \<^verbatim>\<open>run\<close> that returns, the batches are taken from the positive pairs followed by the
  negative pairs and from these labels, which are as many as the pairs; when the indices
  drawn are a permutation of all positions, twice the sum of all returned labels is
  their number.
\<close>

theorem labels_follow_pairs:
  "np_repeat [1, 0 :: int] k = replicate k 1 @ replicate k 0
   \<and> (\<forall>i<length (np_repeat [1, 0 :: int] k). (np_repeat [1, 0 :: int] k ! i = 1) = (i < k))
   \<and> (\<forall>i<length (np_repeat [1, 0 :: int] k). k \<le> i \<longrightarrow> np_repeat [1, 0 :: int] k ! i = 0)
   \<and> 2 * sum_list (np_repeat [1, 0 :: int] k) = int (length (np_repeat [1, 0 :: int] k))
   \<and> (run ext s v = (Inr batches, s') \<longrightarrow>
        (\<exists>b walks wk pos samples r1 neg indices r2.
           stages ext s v b walks wk pos samples r1 neg indices r2
           \<and> collect (batch_of (pos @ neg) (np_repeat [1, 0] (length pos)))
                (batch_indices indices (nat b)) = Inr batches
           \<and> length (np_repeat [1, 0 :: int] (length pos)) = length (pos @ neg)
           \<and> (mset indices = mset [0..<length (pos @ neg)] \<longrightarrow>
                2 * sum_list (concat (map snd batches)) = int (length (concat (map snd batches))))))"
proof -
  have "\<exists>b walks wk pos samples r1 neg indices r2.
           stages ext s v b walks wk pos samples r1 neg indices r2
           \<and> collect (batch_of (pos @ neg) (np_repeat [1, 0] (length pos)))
                (batch_indices indices (nat b)) = Inr batches
           \<and> length (np_repeat [1, 0 :: int] (length pos)) = length (pos @ neg)
           \<and> (mset indices = mset [0..<length (pos @ neg)] \<longrightarrow>
                2 * sum_list (concat (map snd batches)) = int (length (concat (map snd batches))))"
    if "run ext s v = (Inr batches, s')"
  proof -
    from run_returns [OF that] obtain b walks wk pos samples r1 neg indices r2
      where st: "stages ext s v b walks wk pos samples r1 neg indices r2"
        and co: "collect (batch_of (pos @ neg) (np_repeat [1, 0] (length pos)))
                   (batch_indices indices (nat b)) = Inr batches"
      by blast
    let ?labels = "np_repeat [1, 0 :: int] (length pos)"
    from st have "negative_pairs pos samples = Inr neg" by (simp add: stages_def)
    then have ln: "length neg = length pos" by (simp add: negative_pairs_Inr)
    then have len: "length ?labels = length (pos @ neg)" by (simp add: labels_facts)
    from st have "2 \<le> b" using check_parameter_values_Inr by (auto simp: stages_def)
    then have b: "0 < nat b" by simp
    have bs: "concat (map snd batches) = map (\<lambda>i. ?labels ! i) indices"
      unfolding batches_of_chunks(1) [OF co]
      by (simp only: concat_map_fst_batches concat_batch_indices [OF b])
    have "2 * sum_list (concat (map snd batches)) = int (length (concat (map snd batches)))"
      if pm: "mset indices = mset [0..<length (pos @ neg)]"
    proof -
      from pm have li: "length indices = length ?labels"
        using len by (metis length_upt minus_nat.diff_0 size_mset)
      from pm len have "mset indices = mset [0..<length ?labels]" by simp
      then have "sum_list (map (\<lambda>i. ?labels ! i) indices) = sum_list ?labels"
        by (rule sum_list_map_nth_permutation)
      then show ?thesis using li by (simp add: bs labels_facts(5))
    qed
    with st co len show ?thesis by blast
  qed
  then have e: "run ext s v = (Inr batches, s') \<longrightarrow>
        (\<exists>b walks wk pos samples r1 neg indices r2.
           stages ext s v b walks wk pos samples r1 neg indices r2
           \<and> collect (batch_of (pos @ neg) (np_repeat [1, 0] (length pos)))
                (batch_indices indices (nat b)) = Inr batches
           \<and> length (np_repeat [1, 0 :: int] (length pos)) = length (pos @ neg)
           \<and> (mset indices = mset [0..<length (pos @ neg)] \<longrightarrow>
                2 * sum_list (concat (map snd batches)) = int (length (concat (map snd batches)))))"
    by (rule impI)
  have a: "np_repeat [1, 0 :: int] k = replicate k 1 @ replicate k 0"
    by (rule labels_facts(1))
  have b: "\<forall>i<length (np_repeat [1, 0 :: int] k). (np_repeat [1, 0 :: int] k ! i = 1) = (i < k)"
    using labels_facts(3) [of _ k] by (simp add: labels_facts(2))
  have c: "\<forall>i<length (np_repeat [1, 0 :: int] k). k \<le> i \<longrightarrow> np_repeat [1, 0 :: int] k ! i = 0"
    using labels_facts(4) [of _ k] by (simp add: labels_facts(2))
  have d: "2 * sum_list (np_repeat [1, 0 :: int] k) = int (length (np_repeat [1, 0 :: int] k))"
    by (rule labels_facts(5))
  show ?thesis by (intro conjI) (rule a b c d e)+
qed

theorem labels_follow_pairs_witness:
  "run demo_ext demo_sampler (PyInt 6) = (Inr demo_batches, demo_after)
   \<and> np_repeat [1, 0 :: int] 2 = [1, 1, 0, 0]
   \<and> (\<exists>b walks wk pos samples r1 neg indices r2.
           stages demo_ext demo_sampler (PyInt 6) b walks wk pos samples r1 neg indices r2
           \<and> collect (batch_of (pos @ neg) (np_repeat [1, 0] (length pos)))
                (batch_indices indices (nat b)) = Inr demo_batches
           \<and> length (np_repeat [1, 0 :: int] (length pos)) = length (pos @ neg)
           \<and> (mset indices = mset [0..<length (pos @ neg)] \<longrightarrow>
                2 * sum_list (concat (map snd demo_batches))
                  = int (length (concat (map snd demo_batches)))))"
proof -
  note t = labels_follow_pairs [where k = 2 and ext = demo_ext and s = demo_sampler
      and v = "PyInt 6" and batches = demo_batches and s' = demo_after]
  from t demo_run_result have "\<exists>b walks wk pos samples r1 neg indices r2.
           stages demo_ext demo_sampler (PyInt 6) b walks wk pos samples r1 neg indices r2
           \<and> collect (batch_of (pos @ neg) (np_repeat [1, 0] (length pos)))
                (batch_indices indices (nat b)) = Inr demo_batches
           \<and> length (np_repeat [1, 0 :: int] (length pos)) = length (pos @ neg)
           \<and> (mset indices = mset [0..<length (pos @ neg)] \<longrightarrow>
                2 * sum_list (concat (map snd demo_batches))
                  = int (length (concat (map snd demo_batches))))"
    by (elim conjE) (erule mp)
  moreover from t have "np_repeat [1, 0 :: int] 2 = [1, 1, 0, 0]"
    by (simp add: numeral_2_eq_2)
  ultimately show ?thesis using demo_run_result by (intro conjI)
qed

section \<open>Shuffling and batching\<close>

lemma permutation_facts:
  assumes "mset idx = mset [0..<n]"
  shows "distinct idx" and "set idx = {0..<n}" and "length idx = n"
proof -
  show "distinct idx" using assms by (metis distinct_upt mset_eq_imp_distinct_iff)
  show "set idx = {0..<n}" using assms by (metis mset_eq_setD set_upt)
  show "length idx = n" using assms by (metis length_upt minus_nat.diff_0 size_mset)
qed

text \<open>
  C4. In a call of \<^verbatim>\<open>run\<close> that returns, \<^verbatim>\<open>permutation\<close> is called once, for the number of
  all pairs (the last line of \<open>stages\<close>), and the batches follow the consecutive chunks of
  \<^verbatim>\<open>batch_size\<close> indices: the chunks concatenate to the index sequence, the \<open>k\<close>-th batch
  holds the pairs and the labels at the indices of the \<open>k\<close>-th chunk, so both have the
  same length, between 1 and \<^verbatim>\<open>batch_size\<close>, and exactly \<^verbatim>\<open>batch_size\<close> for every batch
  but the last. When the indices drawn are a permutation of all positions, they are
  distinct and cover every position, and the batches together hold the pool of pairs
  (and of labels) exactly once.
\<close>

theorem batches_are_chunks_of_permutation:
  "run ext s v = (Inr batches, s') \<longrightarrow>
     (\<exists>b walks wk pos samples r1 neg indices r2.
        stages ext s v b walks wk pos samples r1 neg indices r2
        \<and> 0 < nat b
        \<and> concat (batch_indices indices (nat b)) = indices
        \<and> length batches = (length indices + nat b - 1) div nat b
        \<and> (\<forall>k<length batches.
              batches ! k =
                (map (\<lambda>i. (pos @ neg) ! i) (take (nat b) (drop (k * nat b) indices)),
                 map (\<lambda>i. np_repeat [1, 0] (length pos) ! i)
                   (take (nat b) (drop (k * nat b) indices)))
              \<and> length (fst (batches ! k)) = length (snd (batches ! k))
              \<and> 1 \<le> length (fst (batches ! k))
              \<and> length (fst (batches ! k)) \<le> nat b
              \<and> (Suc k < length batches \<longrightarrow> length (fst (batches ! k)) = nat b))
        \<and> concat (map fst batches) = map (\<lambda>i. (pos @ neg) ! i) indices
        \<and> concat (map snd batches) = map (\<lambda>i. np_repeat [1, 0] (length pos) ! i) indices
        \<and> (mset indices = mset [0..<length (pos @ neg)] \<longrightarrow>
              distinct indices \<and> set indices = {0..<length (pos @ neg)}
              \<and> mset (concat (map fst batches)) = mset (pos @ neg)
              \<and> mset (concat (map snd batches)) = mset (np_repeat [1, 0] (length pos))))"
proof
  assume r: "run ext s v = (Inr batches, s')"
  from run_returns [OF r] obtain b walks wk pos samples r1 neg indices r2
    where st: "stages ext s v b walks wk pos samples r1 neg indices r2"
      and co: "collect (batch_of (pos @ neg) (np_repeat [1, 0] (length pos)))
                 (batch_indices indices (nat b)) = Inr batches"
    by blast
  let ?pairs = "pos @ neg"
  let ?labels = "np_repeat [1, 0 :: int] (length pos)"
  let ?m = "(length indices + nat b - 1) div nat b"
  let ?F = "\<lambda>c. (map (\<lambda>i. ?pairs ! i) c, map (\<lambda>i. ?labels ! i) c)"
  from st have "2 \<le> b" using check_parameter_values_Inr by (auto simp: stages_def)
  then have b: "0 < nat b" by simp
  from st have "negative_pairs pos samples = Inr neg" by (simp add: stages_def)
  then have len: "length ?labels = length ?pairs"
    by (simp add: negative_pairs_Inr labels_facts)
  have bt: "batches = map ?F (batch_indices indices (nat b))"
    by (rule batches_of_chunks(1) [OF co])
  have cc: "concat (batch_indices indices (nat b)) = indices"
    by (rule concat_batch_indices [OF b])
  have lb: "length batches = ?m"
    by (simp add: bt length_batch_indices)
  have each: "batches ! k = ?F (take (nat b) (drop (k * nat b) indices))
              \<and> length (fst (batches ! k)) = length (snd (batches ! k))
              \<and> 1 \<le> length (fst (batches ! k))
              \<and> length (fst (batches ! k)) \<le> nat b
              \<and> (Suc k < length batches \<longrightarrow> length (fst (batches ! k)) = nat b)"
    if "k < length batches" for k
  proof -
    from that have k: "k < ?m" by (simp only: lb)
    then have kl: "k < length (batch_indices indices (nat b))"
      by (simp only: length_batch_indices)
    have c: "batch_indices indices (nat b) ! k = take (nat b) (drop (k * nat b) indices)"
      by (rule batch_indices_chunk [OF k])
    have e: "batches ! k = ?F (batch_indices indices (nat b) ! k)"
      unfolding bt using kl by (rule nth_map)
    have l: "length (fst (batches ! k)) = length (batch_indices indices (nat b) ! k)"
      by (simp add: e)
    have l2: "length (snd (batches ! k)) = length (batch_indices indices (nat b) ! k)"
      by (simp add: e)
    from chunk_sizes [OF b k] lb e c l l2 show ?thesis by simp
  qed
  have cf: "concat (map fst batches) = map (\<lambda>i. ?pairs ! i) indices"
    unfolding bt by (simp only: concat_map_fst_batches cc)
  have cs: "concat (map snd batches) = map (\<lambda>i. ?labels ! i) indices"
    unfolding bt by (simp only: concat_map_fst_batches cc)
  have pm: "distinct indices \<and> set indices = {0..<length ?pairs}
            \<and> mset (concat (map fst batches)) = mset ?pairs
            \<and> mset (concat (map snd batches)) = mset ?labels"
    if p: "mset indices = mset [0..<length ?pairs]"
  proof -
    from p len have p': "mset indices = mset [0..<length ?labels]" by simp
    show ?thesis
      using permutation_facts(1,2) [OF p] mset_map_nth_permutation [OF p]
        mset_map_nth_permutation [OF p']
      by (simp only: cf cs)
  qed
  from st b cc lb each cf cs pm
  show "\<exists>b walks wk pos samples r1 neg indices r2.
        stages ext s v b walks wk pos samples r1 neg indices r2
        \<and> 0 < nat b
        \<and> concat (batch_indices indices (nat b)) = indices
        \<and> length batches = (length indices + nat b - 1) div nat b
        \<and> (\<forall>k<length batches.
              batches ! k =
                (map (\<lambda>i. (pos @ neg) ! i) (take (nat b) (drop (k * nat b) indices)),
                 map (\<lambda>i. np_repeat [1, 0] (length pos) ! i)
                   (take (nat b) (drop (k * nat b) indices)))
              \<and> length (fst (batches ! k)) = length (snd (batches ! k))
              \<and> 1 \<le> length (fst (batches ! k))
              \<and> length (fst (batches ! k)) \<le> nat b
              \<and> (Suc k < length batches \<longrightarrow> length (fst (batches ! k)) = nat b))
        \<and> concat (map fst batches) = map (\<lambda>i. (pos @ neg) ! i) indices
        \<and> concat (map snd batches) = map (\<lambda>i. np_repeat [1, 0] (length pos) ! i) indices
        \<and> (mset indices = mset [0..<length (pos @ neg)] \<longrightarrow>
              distinct indices \<and> set indices = {0..<length (pos @ neg)}
              \<and> mset (concat (map fst batches)) = mset (pos @ neg)
              \<and> mset (concat (map snd batches)) = mset (np_repeat [1, 0] (length pos)))"
    by blast
qed

theorem batches_are_chunks_of_permutation_witness:
  "run demo_ext demo_sampler (PyInt 6) = (Inr demo_batches, demo_after)
   \<and> (\<exists>b walks wk pos samples r1 neg indices r2.
        stages demo_ext demo_sampler (PyInt 6) b walks wk pos samples r1 neg indices r2
        \<and> concat (batch_indices indices (nat b)) = indices
        \<and> length demo_batches = (length indices + nat b - 1) div nat b
        \<and> concat (map fst demo_batches) = map (\<lambda>i. (pos @ neg) ! i) indices
        \<and> concat (map snd demo_batches) = map (\<lambda>i. np_repeat [1, 0] (length pos) ! i) indices)
   \<and> map (\<lambda>bt. (length (fst bt), length (snd bt))) demo_batches = [(6, 6), (2, 2)]"
proof -
  note t = batches_are_chunks_of_permutation [where ext = demo_ext and s = demo_sampler
      and v = "PyInt 6" and batches = demo_batches and s' = demo_after]
  from t [THEN mp, OF demo_run_result]
  have "\<exists>b walks wk pos samples r1 neg indices r2.
        stages demo_ext demo_sampler (PyInt 6) b walks wk pos samples r1 neg indices r2
        \<and> concat (batch_indices indices (nat b)) = indices
        \<and> length demo_batches = (length indices + nat b - 1) div nat b
        \<and> concat (map fst demo_batches) = map (\<lambda>i. (pos @ neg) ! i) indices
        \<and> concat (map snd demo_batches) = map (\<lambda>i. np_repeat [1, 0] (length pos) ! i) indices"
    by blast
  moreover have "map (\<lambda>bt. (length (fst bt), length (snd bt))) demo_batches = [(6, 6), (2, 2)]"
    by (simp add: demo_batches_def)
  ultimately show ?thesis using demo_run_result by (intro conjI)
qed

section \<open>No positive pair, no batches\<close>

lemma positive_pairs_Nil: "positive_pairs [] = Inr []"
  by (simp add: positive_pairs_def targets_def)

lemma positive_pairs_nonempty:
  assumes "positive_pairs walks = Inr pos" and "pos \<noteq> []"
  shows "\<exists>w\<in>set walks. 2 \<le> length w"
proof -
  from assms(1) obtain ts where
    pos: "pos = concat (map (\<lambda>(target, walk). map (\<lambda>c. (target, c)) (drop 1 walk)) (zip ts walks))"
    by (auto simp: positive_pairs_def split: sum.splits)
  have "\<exists>tw\<in>set (zip ts walks). 2 \<le> length (snd tw)"
  proof (rule ccontr)
    assume "\<not> ?thesis"
    then have "pos = []" unfolding pos by (auto simp: not_le less_Suc_eq_le)
    with assms(2) show False ..
  qed
  then obtain t w where "(t, w) \<in> set (zip ts walks)" and "2 \<le> length w"
    by auto
  then have "w \<in> set walks" "2 \<le> length w"
    by (auto dest: set_zip_rightD)
  then show ?thesis by blast
qed

lemma run_without_positive_pairs:
  assumes "check_parameter_values v = Inr b"
    and "run_walker ext s = (Inr walks, wk)"
    and "positive_pairs walks = Inr []"
  shows "\<exists>e s'. run ext s v = (Inl e, s')"
proof (cases "choice ext (np_random s) (graph_nodes (graph s)) 0
                (sampling_distribution_norm (graph s))")
  case (Pair res r1)
  then show ?thesis
    using assms
    by (cases res) (simp_all add: run_def negative_pairs_def column0_def)
qed

lemma run_walker_no_roots:
  assumes "nodes s = []" and "no_roots_no_walks ext"
  shows "(\<exists>e wk. run_walker ext s = (Inl e, wk)) \<or> (\<exists>wk. run_walker ext s = (Inr [], wk))"
proof (cases "walker s")
  case (UniformRandomWalk w)
  obtain res w' where u: "uniform_run ext w [] (length_w s) (number_of_walks s) = (res, w')"
    by (cases "uniform_run ext w [] (length_w s) (number_of_walks s)")
  with assms(2) have "res = Inr []"
    unfolding no_roots_no_walks_def by (metis fst_conv)
  with u UniformRandomWalk assms(1) show ?thesis by (simp add: run_walker_def)
next
  case (BiasedRandomWalk w)
  show ?thesis
  proof (cases "bias s")
    case None
    with BiasedRandomWalk show ?thesis by (simp add: run_walker_def)
  next
    case (Some pqw)
    obtain p q wt where pqw: "pqw = (p, q, wt)" by (cases pqw)
    obtain res w' where u: "biased_run ext w [] (length_w s) (number_of_walks s) p q wt = (res, w')"
      by (cases "biased_run ext w [] (length_w s) (number_of_walks s) p q wt")
    with assms(2) have "res = Inr []"
      unfolding no_roots_no_walks_def by (metis fst_conv)
    with u BiasedRandomWalk Some pqw assms(1) show ?thesis by (simp add: run_walker_def)
  qed
qed

lemma run_walker_raises:
  assumes "run_walker ext s = (Inl e, wk)"
  shows "\<exists>e s'. run ext s v = (Inl e, s')"
  using assms by (cases "check_parameter_values v") (simp_all add: run_def)

text \<open>
  C10. With no root node, and walkers that return no walk then, \<^verbatim>\<open>run\<close> raises for every
  argument. More generally, a call with a valid batch size whose walks give no positive
  pair raises: when \<^verbatim>\<open>choice\<close> returns, it is the \<^verbatim>\<open>IndexError\<close> of
  \<^verbatim>\<open>positive_pairs[:, 0]\<close>. A call that returns had a walk of length at least 2 and a
  positive pair.
\<close>

theorem run_needs_a_positive_pair:
  "(nodes s = [] \<and> no_roots_no_walks ext \<longrightarrow> (\<exists>e s'. run ext s v = (Inl e, s')))
   \<and> (check_parameter_values v = Inr b \<and> run_walker ext s = (Inr walks, wk)
        \<and> positive_pairs walks = Inr [] \<longrightarrow>
        (\<exists>e s'. run ext s v = (Inl e, s'))
        \<and> (\<forall>samples r1.
              choice ext (np_random s) (graph_nodes (graph s)) 0
                (sampling_distribution_norm (graph s)) = (Inr samples, r1) \<longrightarrow>
              run ext s v = (Inl (IndexError ''too many indices for array''),
                             s\<lparr>walker := wk, np_random := r1\<rparr>)))
   \<and> (run ext s v = (Inr batches, s') \<longrightarrow>
        (\<exists>b walks wk pos samples r1 neg indices r2.
           stages ext s v b walks wk pos samples r1 neg indices r2
           \<and> pos \<noteq> [] \<and> walks \<noteq> [] \<and> (\<exists>w\<in>set walks. 2 \<le> length w)))"
proof (intro conjI impI)
  assume a: "nodes s = [] \<and> no_roots_no_walks ext"
  show "\<exists>e s'. run ext s v = (Inl e, s')"
  proof (cases "check_parameter_values v")
    case (Inl e)
    then show ?thesis by (simp add: run_def)
  next
    case (Inr b)
    from a run_walker_no_roots [of s ext] consider
      e wk where "run_walker ext s = (Inl e, wk)" | wk where "run_walker ext s = (Inr [], wk)"
      by blast
    then show ?thesis
    proof cases
      case 1
      then show ?thesis by (rule run_walker_raises)
    next
      case 2
      from Inr 2 positive_pairs_Nil show ?thesis by (rule run_without_positive_pairs)
    qed
  qed
next
  assume a: "check_parameter_values v = Inr b \<and> run_walker ext s = (Inr walks, wk)
        \<and> positive_pairs walks = Inr []"
  then show "\<exists>e s'. run ext s v = (Inl e, s')"
    using run_without_positive_pairs by blast
  show "\<forall>samples r1.
              choice ext (np_random s) (graph_nodes (graph s)) 0
                (sampling_distribution_norm (graph s)) = (Inr samples, r1) \<longrightarrow>
              run ext s v = (Inl (IndexError ''too many indices for array''),
                             s\<lparr>walker := wk, np_random := r1\<rparr>)"
    using a by (simp add: run_def negative_pairs_def column0_def)
next
  assume r: "run ext s v = (Inr batches, s')"
  from run_returns [OF r] obtain b walks wk pos samples r1 neg indices r2
    where st: "stages ext s v b walks wk pos samples r1 neg indices r2" by blast
  then have n: "negative_pairs pos samples = Inr neg" and p: "positive_pairs walks = Inr pos"
    by (simp_all add: stages_def)
  from n have ne: "pos \<noteq> []" by (simp add: negative_pairs_Inr)
  from positive_pairs_nonempty [OF p ne] have w: "\<exists>w\<in>set walks. 2 \<le> length w" .
  then have "walks \<noteq> []" by auto
  with st ne w show "\<exists>b walks wk pos samples r1 neg indices r2.
           stages ext s v b walks wk pos samples r1 neg indices r2
           \<and> pos \<noteq> [] \<and> walks \<noteq> [] \<and> (\<exists>w\<in>set walks. 2 \<le> length w)"
    by blast
qed

lemma demo_no_roots_no_walks: "no_roots_no_walks demo_ext"
  by (simp add: no_roots_no_walks_def demo_ext_def demo_walks_def)

lemma demo_run_no_roots:
  "run demo_ext empty_roots_sampler (PyInt 6) =
     (Inl (IndexError ''too many indices for array''),
      empty_roots_sampler\<lparr>walker := UniformRandomWalk 1, np_random := 5\<rparr>)"
proof -
  have k: "check_parameter_values (PyInt 6) = Inr 6"
    by (simp add: check_parameter_values_def)
  have w: "run_walker demo_ext empty_roots_sampler = (Inr [], UniformRandomWalk 1)"
    by (simp add: run_walker_def demo_ext_def empty_roots_sampler_def demo_sampler_def
        demo_walks_def)
  have c: "choice demo_ext (np_random empty_roots_sampler)
             (graph_nodes (graph empty_roots_sampler)) 0
             (sampling_distribution_norm (graph empty_roots_sampler)) = (Inr [], 5)"
    by (simp add: demo_ext_def empty_roots_sampler_def demo_sampler_def demo_distribution
        demo_choice_def np_sum_def)
       (simp add: demo_graph_def)
  show ?thesis
    using k w c by (simp add: run_def positive_pairs_Nil negative_pairs_def column0_def)
qed

theorem run_needs_a_positive_pair_witness:
  "nodes empty_roots_sampler = [] \<and> no_roots_no_walks demo_ext
   \<and> (\<exists>e s'. run demo_ext empty_roots_sampler (PyInt 6) = (Inl e, s'))
   \<and> run demo_ext empty_roots_sampler (PyInt 6) =
       (Inl (IndexError ''too many indices for array''),
        empty_roots_sampler\<lparr>walker := UniformRandomWalk 1, np_random := 5\<rparr>)"
proof -
  have n: "nodes empty_roots_sampler = []" by (simp add: empty_roots_sampler_def)
  note t = run_needs_a_positive_pair [where s = empty_roots_sampler and ext = demo_ext
      and v = "PyInt 6" and b = 6 and walks = "[]" and wk = "UniformRandomWalk 1"
      and batches = "[]" and s' = empty_roots_sampler]
  from t n demo_no_roots_no_walks
  have "\<exists>e s'. run demo_ext empty_roots_sampler (PyInt 6) = (Inl e, s')" by blast
  with n demo_no_roots_no_walks demo_run_no_roots show ?thesis by (intro conjI)
qed

section \<open>Seeded engines\<close>





section \<open>Degrees that are all zero\<close>









end
